theory Spec2Isabelle
  imports Complex_Main "HOL-Library.AList"
begin

section \<open>Data model of the library (content.js, typedefs and \<open>folderData\<close>)\<close>

text \<open>
  A folder owns its subfolders and refers to chats by identifier. The typedef of the source
  gives a folder a numeric \<open>id\<close> (every folder the program creates takes \<open>Date.now()\<close>),
  a \<open>chatIds\<close> array and a \<open>subfolders\<close> array. A record cannot be recursive, so the
  folder is a datatype with selectors.
\<close>

datatype folder = Folder
  (folder_id: int)
  (name: string)
  (chatIds: "string list")
  (subfolders: "folder list")
  (folder_annotation: string)
  (sortOrder: "string option")

record chat =
  chat_id :: string
  title :: string
  tags :: "string list"
  annotation :: string
  timestamp :: int
  updatedAt :: int

record pinnedSearch =
  pin_id :: int
  pin_title :: string
  query :: string

text \<open>
  \<open>allChats\<close> is a JavaScript object used as a dictionary. It is an association list
  here: \<open>map_of\<close> reads a key, \<open>AList.update\<close> assigns one (in place when the key exists,
  at the end otherwise), \<open>AList.delete\<close> is the \<open>delete\<close> operator and \<open>map fst\<close> is
  \<open>Object.keys\<close>. The order in which JavaScript lists keys that look like integers is not
  modelled: the properties below read the keys as a set.
\<close>

record library =
  folders :: "folder list"
  allChats :: "(string \<times> chat) list"
  pinnedSearches :: "pinnedSearch list"

definition emptyLibrary :: library where
  "emptyLibrary = \<lparr>folders = [], allChats = [], pinnedSearches = []\<rparr>"

section \<open>Strings\<close>

text \<open>
  A string is a list of code units below 256. White space is what \<open>\s\<close> and
  \<open>String.prototype.trim\<close> remove in that range.
\<close>

definition isSpace :: "char \<Rightarrow> bool" where
  "isSpace c = (c \<in> set [CHR 0x09, CHR 0x0A, CHR 0x0B, CHR 0x0C, CHR 0x0D, CHR 0x20, CHR 0xA0])"

definition trim :: "string \<Rightarrow> string" where
  "trim s = rev (dropWhile isSpace (rev (dropWhile isSpace s)))"

definition toLowerChar :: "char \<Rightarrow> char" where
  "toLowerChar c =
     (let n = (of_char c :: nat)
      in if (65 \<le> n \<and> n \<le> 90) \<or> (192 \<le> n \<and> n \<le> 222 \<and> n \<noteq> 215)
         then char_of (n + 32) else c)"

definition toLowerCase :: "string \<Rightarrow> string" where
  "toLowerCase s = map toLowerChar s"

fun startsWith :: "string \<Rightarrow> string \<Rightarrow> bool" where
  "startsWith s [] = True"
| "startsWith [] (p # ps) = False"
| "startsWith (c # cs) (p # ps) = (c = p \<and> startsWith cs ps)"

text \<open>\<open>includesStr s t\<close> is \<open>s.includes(t)\<close> on strings: \<open>t\<close> occurs in \<open>s\<close>.\<close>

fun includesStr :: "string \<Rightarrow> string \<Rightarrow> bool" where
  "includesStr [] t = (t = [])"
| "includesStr (c # cs) t = (startsWith (c # cs) t \<or> includesStr cs t)"

text \<open>\<open>replace(/^#+/, '')\<close>: the leading run of \<open>#\<close> is removed.\<close>

definition stripHashes :: "string \<Rightarrow> string" where
  "stripHashes s = dropWhile (\<lambda>c. c = CHR ''#'') s"

section \<open>Numbers, identifiers and loose equality\<close>

text \<open>
  An identifier handed to the folder operations is a number (a stored id), a string (an id
  read back from a \<open>data-id\<close> attribute, or \<open>'root'\<close>) or \<open>null\<close>.
\<close>

datatype jsval = Num int | Str string | Null

text \<open>
  The template literal \<open>${f.id}\<close> renders a stored id with \<open>Number::toString\<close>: for an
  integer below \<open>10^21\<close> in magnitude, its decimal digits after an optional minus sign.
\<close>

definition digitChar :: "nat \<Rightarrow> char" where
  "digitChar d = char_of (48 + d)"

function digitsOf :: "nat \<Rightarrow> string" where
  "digitsOf n = (if n < 10 then [digitChar n] else digitsOf (n div 10) @ [digitChar (n mod 10)])"
  by pat_completeness auto
termination
  by (relation "measure id") auto

declare digitsOf.simps [simp del]

definition NumberToString :: "int \<Rightarrow> string" where
  "NumberToString n = (if n < 0 then CHR ''-'' # digitsOf (nat (- n)) else digitsOf (nat n))"

text \<open>
  \<open>StringToNumber\<close> is the conversion that \<open>==\<close> applies to a string compared with a
  number: white space is trimmed, the empty string is 0, and the rest must be a
  \<open>StrDecimalLiteral\<close> (sign, digits, fraction, exponent, or \<open>Infinity\<close>) or an unsigned
  binary, octal or hexadecimal integer literal; anything else is \<open>NaN\<close>. The value is kept
  exact, as a rational: the rounding to binary64 is left out, so the model is the source's
  on every literal whose value is a binary64 number, the integers of the stored ids among
  them.
\<close>

datatype jsnumber = NaN | Finite rat | Infinite bool

definition isDigit :: "char \<Rightarrow> bool" where
  "isDigit c = (48 \<le> (of_char c :: nat) \<and> (of_char c :: nat) \<le> 57)"

definition digitVal :: "char \<Rightarrow> nat" where
  "digitVal c = of_char c - 48"

definition decimalValue :: "string \<Rightarrow> nat" where
  "decimalValue ds = foldl (\<lambda>a c. 10 * a + digitVal c) 0 ds"

definition hexDigitVal :: "char \<Rightarrow> nat option" where
  "hexDigitVal c =
     (let n = (of_char c :: nat)
      in if 48 \<le> n \<and> n \<le> 57 then Some (n - 48)
         else if 97 \<le> n \<and> n \<le> 102 then Some (n - 87)
         else if 65 \<le> n \<and> n \<le> 70 then Some (n - 55)
         else None)"

text \<open>Digits of a literal in base \<open>b\<close>; \<open>None\<close> when a character is not a digit of that base.\<close>

fun radixValue :: "nat \<Rightarrow> nat \<Rightarrow> string \<Rightarrow> nat option" where
  "radixValue b a [] = Some a"
| "radixValue b a (c # cs) =
     (case hexDigitVal c of
        None \<Rightarrow> None
      | Some d \<Rightarrow> if d < b then radixValue b (b * a + d) cs else None)"

definition NonDecimalIntegerLiteral :: "string \<Rightarrow> nat option" where
  "NonDecimalIntegerLiteral s =
     (case s of
        c0 # c1 # d # ds \<Rightarrow>
          if c0 = CHR ''0'' \<and> (c1 = CHR ''x'' \<or> c1 = CHR ''X'') then radixValue 16 0 (d # ds)
          else if c0 = CHR ''0'' \<and> (c1 = CHR ''o'' \<or> c1 = CHR ''O'') then radixValue 8 0 (d # ds)
          else if c0 = CHR ''0'' \<and> (c1 = CHR ''b'' \<or> c1 = CHR ''B'') then radixValue 2 0 (d # ds)
          else None
      | _ \<Rightarrow> None)"

text \<open>\<open>SignedInteger\<close> of an exponent part: all of the string, or nothing.\<close>

definition SignedInteger :: "string \<Rightarrow> int option" where
  "SignedInteger s =
     (let (neg, ds) = (case s of
                         c # r \<Rightarrow> if c = CHR ''-'' then (True, r)
                                  else if c = CHR ''+'' then (False, r) else (False, s)
                       | [] \<Rightarrow> (False, s))
      in if ds \<noteq> [] \<and> list_all isDigit ds
         then Some (if neg then - int (decimalValue ds) else int (decimalValue ds))
         else None)"

definition scale10 :: "rat \<Rightarrow> int \<Rightarrow> rat" where
  "scale10 v e = (if 0 \<le> e then v * 10 ^ nat e else v / 10 ^ nat (- e))"

definition StrUnsignedDecimalLiteral :: "string \<Rightarrow> jsnumber option" where
  "StrUnsignedDecimalLiteral s =
     (if s = ''Infinity'' then Some (Infinite False)
      else
        let ip = takeWhile isDigit s;
            r1 = dropWhile isDigit s;
            (fp, r2) = (case r1 of
                          c # r \<Rightarrow> if c = CHR ''.'' then (takeWhile isDigit r, dropWhile isDigit r)
                                   else ([], r1)
                        | [] \<Rightarrow> ([], r1));
            ex = (case r2 of
                    [] \<Rightarrow> Some 0
                  | c # r \<Rightarrow> if c = CHR ''e'' \<or> c = CHR ''E'' then SignedInteger r else None)
        in if ip = [] \<and> fp = [] then None
           else case ex of
                  None \<Rightarrow> None
                | Some e \<Rightarrow> Some (Finite (scale10 (of_nat (decimalValue (ip @ fp))) (e - int (length fp)))))"

definition negateNumber :: "jsnumber \<Rightarrow> jsnumber" where
  "negateNumber v = (case v of NaN \<Rightarrow> NaN | Finite q \<Rightarrow> Finite (- q) | Infinite b \<Rightarrow> Infinite (\<not> b))"

definition StrDecimalLiteral :: "string \<Rightarrow> jsnumber option" where
  "StrDecimalLiteral s =
     (case s of
        c # r \<Rightarrow> if c = CHR ''-'' then map_option negateNumber (StrUnsignedDecimalLiteral r)
                 else if c = CHR ''+'' then StrUnsignedDecimalLiteral r
                 else StrUnsignedDecimalLiteral s
      | [] \<Rightarrow> None)"

definition StringToNumber :: "string \<Rightarrow> jsnumber" where
  "StringToNumber s =
     (let t = trim s
      in if t = [] then Finite 0
         else case StrDecimalLiteral t of
                Some v \<Rightarrow> v
              | None \<Rightarrow> (case NonDecimalIntegerLiteral t of
                           Some n \<Rightarrow> Finite (of_nat n)
                         | None \<Rightarrow> NaN))"

text \<open>
  \<open>a == b\<close> on identifiers: two numbers or two strings compare as they are, a number and a
  string compare after \<open>StringToNumber\<close>, and \<open>null\<close> equals only \<open>null\<close>.
\<close>

fun looseEq :: "jsval \<Rightarrow> jsval \<Rightarrow> bool" where
  "looseEq (Num a) (Num b) = (a = b)"
| "looseEq (Str s) (Str t) = (s = t)"
| "looseEq (Num a) (Str s) = (StringToNumber s = Finite (of_int a))"
| "looseEq (Str s) (Num a) = (StringToNumber s = Finite (of_int a))"
| "looseEq Null Null = True"
| "looseEq _ _ = False"

section \<open>Locating a folder\<close>

text \<open>
  \<open>getFolderContext\<close> returns references: the folder object, the array that holds it and
  the index in that array. The folders form a tree, so an array is addressed by the child
  indices that lead to it from the root array (\<open>[]\<close> is \<open>folderData.folders\<close> itself), and
  the context carries that address in \<open>siblings\<close> next to a copy of the folder as it was
  found.
\<close>

record folderContext =
  folder :: folder
  siblings :: "nat list"
  index :: nat

text \<open>
  The loop \<open>for (i = 0; i < list.length; i++)\<close>, on the rest of the list from index \<open>i\<close>
  on; \<open>addr\<close> is the address of \<open>list\<close>.
\<close>

fun getFolderContextFrom :: "jsval \<Rightarrow> nat list \<Rightarrow> nat \<Rightarrow> folder list \<Rightarrow> folderContext option" where
  "getFolderContextFrom x addr i [] = None"
| "getFolderContextFrom x addr i (Folder fi n cs subs a so # rest) =
     (if looseEq (Num fi) x
      then Some \<lparr>folder = Folder fi n cs subs a so, siblings = addr, index = i\<rparr>
      else if subs \<noteq> []
      then (case getFolderContextFrom x (addr @ [i]) 0 subs of
              Some c \<Rightarrow> Some c
            | None \<Rightarrow> getFolderContextFrom x addr (Suc i) rest)
      else getFolderContextFrom x addr (Suc i) rest)"

definition getFolderContext :: "jsval \<Rightarrow> folder list \<Rightarrow> folderContext option" where
  "getFolderContext x list = getFolderContextFrom x [] 0 list"

text \<open>Writing through a reference: the array at an address is replaced by its image.\<close>

fun setSubfolders :: "folder list \<Rightarrow> folder \<Rightarrow> folder" where
  "setSubfolders s (Folder fi n cs subs a so) = Folder fi n cs s a so"

fun setChatIds :: "string list \<Rightarrow> folder \<Rightarrow> folder" where
  "setChatIds c (Folder fi n cs subs a so) = Folder fi n c subs a so"

fun updateAt :: "nat list \<Rightarrow> (folder list \<Rightarrow> folder list) \<Rightarrow> folder list \<Rightarrow> folder list" where
  "updateAt [] g fs = g fs"
| "updateAt (k # p) g fs =
     (if k < length fs
      then fs[k := setSubfolders (updateAt p g (subfolders (fs ! k))) (fs ! k)]
      else fs)"

text \<open>An assignment to a field of \<open>context.folder\<close>, and \<open>context.siblings.splice(index, 1)\<close>.\<close>

definition updateIndex :: "nat \<Rightarrow> (folder \<Rightarrow> folder) \<Rightarrow> folder list \<Rightarrow> folder list" where
  "updateIndex j g l = (if j < length l then l[j := g (l ! j)] else l)"

definition modifyFolder :: "folderContext \<Rightarrow> (folder \<Rightarrow> folder) \<Rightarrow> folder list \<Rightarrow> folder list" where
  "modifyFolder c g tree = updateAt (siblings c) (updateIndex (index c) g) tree"

definition spliceOut :: "folderContext \<Rightarrow> folder list \<Rightarrow> folder list" where
  "spliceOut c tree = updateAt (siblings c) (\<lambda>l. take (index c) l @ drop (Suc (index c)) l) tree"

text \<open>Every folder of the tree, at every depth, parents before children.\<close>

fun allFolders :: "folder list \<Rightarrow> folder list" where
  "allFolders [] = []"
| "allFolders (Folder fi n cs subs a so # rest) =
     Folder fi n cs subs a so # allFolders subs @ allFolders rest"

section \<open>Garbage collector\<close>

text \<open>
  \<open>findUnlinked\<close>: the inner \<open>traverse\<close> adds the chat ids of each folder, then those of
  its subfolders, to the set \<open>referencedIds\<close>; the keys of \<open>allChats\<close> outside that set are
  returned.
\<close>

fun traverseReferenced :: "folder list \<Rightarrow> string set \<Rightarrow> string set" where
  "traverseReferenced [] acc = acc"
| "traverseReferenced (Folder fi n cs subs a so # rest) acc =
     traverseReferenced rest (traverseReferenced subs (acc \<union> set cs))"

definition findUnlinked :: "library \<Rightarrow> string list" where
  "findUnlinked lib =
     filter (\<lambda>k. k \<notin> traverseReferenced (folders lib) {}) (map fst (allChats lib))"

text \<open>
  The specification's set of referenced ids: the ids in the \<open>chatIds\<close> of any folder
  anywhere in the tree.
\<close>

definition referencedIds :: "library \<Rightarrow> string set" where
  "referencedIds lib = (\<Union>f \<in> set (allFolders (folders lib)). set (chatIds f))"

section \<open>The running instance and the quota gatekeeper\<close>

text \<open>
  What the host gives an operation: whether the extension context is alive
  (\<open>chrome.runtime?.id\<close>), the bytes of \<open>JSON.stringify\<close> of a library in UTF-8 (their
  number is the size of the \<open>Blob\<close>), and the error, if any, that the host reports to the
  callback of \<open>chrome.storage.sync.set\<close>.
\<close>

record host =
  runtime_id :: bool
  stringify :: "library \<Rightarrow> string"
  lastError :: "string option"

datatype event =
    Alert_storage_full nat
  | UpdateStorageStats
  | StorageSyncSet library
  | Alert_save_error string

text \<open>
  The state of one instance: the global \<open>folderData\<close>, the value held by the persistence
  port under \<open>maktaba_folders\<close>, the counters of \<open>window.maktabaStats\<close>, and what the
  save path has shown to the user or sent to the port, in order.
\<close>

record world =
  folderData :: library
  storage :: "library option"
  renders :: nat
  skips :: nat
  events :: "event list"

definition QUOTA_LIMIT :: nat where
  "QUOTA_LIMIT = 102400"

definition SAFETY_BUFFER :: nat where
  "SAFETY_BUFFER = 2048"

text \<open>
  \<open>(bytesInUse/1024).toFixed(1)\<close>, in tenths of a kilobyte. The quotient by 1024 is exact
  in binary64, and \<open>toFixed\<close> takes the nearest tenth, the larger one on a tie.
\<close>

definition toFixed1 :: "nat \<Rightarrow> nat" where
  "toFixed1 bytes = (bytes * 10 + 512) div 1024"

text \<open>
  \<open>refreshFolderList\<close> redraws the list and counts the render. What is drawn is not part
  of the state. In \<open>saveAndRefresh\<close> the \<open>catch\<close> branch, taken when the host throws, is
  left out.
\<close>

definition refreshFolderList :: "world \<Rightarrow> world" where
  "refreshFolderList w = w\<lparr>renders := Suc (renders w)\<rparr>"

definition saveAndRefresh :: "host \<Rightarrow> world \<Rightarrow> world" where
  "saveAndRefresh h w0 =
     (let w = refreshFolderList w0
      in if runtime_id h
         then
           let serialized = stringify h (folderData w);
               bytesInUse = length serialized
           in if bytesInUse > QUOTA_LIMIT - SAFETY_BUFFER
              then w\<lparr>events := events w @ [Alert_storage_full (toFixed1 bytesInUse), UpdateStorageStats]\<rparr>
              else (case lastError h of
                      None \<Rightarrow> w\<lparr>storage := Some (folderData w),
                                events := events w @ [StorageSyncSet (folderData w)]\<rparr>
                    | Some msg \<Rightarrow> w\<lparr>events := events w @ [StorageSyncSet (folderData w),
                                                           Alert_save_error msg]\<rparr>)
         else w)"

text \<open>The libraries handed to \<open>chrome.storage.sync.set\<close> so far.\<close>

definition syncSetCalls :: "world \<Rightarrow> library list" where
  "syncSetCalls w = List.map_filter (\<lambda>e. case e of StorageSyncSet l \<Rightarrow> Some l | _ \<Rightarrow> None) (events w)"

section \<open>Sync reconciler\<close>

text \<open>
  The listener of \<open>chrome.storage.onChanged\<close> registered by \<open>setupAutoSync\<close>.
  \<open>change\<close> is \<open>changes.maktaba_folders\<close>: \<open>None\<close> when the key is not among the
  changes, \<open>Some newValue\<close> otherwise, where \<open>newValue\<close> is \<open>None\<close> for \<open>undefined\<close>
  (the key was removed). \<open>JSON.stringify(undefined)\<close> is \<open>undefined\<close>, which differs from
  every string.
\<close>

definition onChanged :: "host \<Rightarrow> library option option \<Rightarrow> string \<Rightarrow> world \<Rightarrow> world" where
  "onChanged h change namespace w =
     (case change of
        None \<Rightarrow> w
      | Some newData \<Rightarrow>
          if namespace = ''sync''
          then if Some (stringify h (folderData w)) \<noteq> map_option (stringify h) newData
               then refreshFolderList
                      (w\<lparr>folderData := (case newData of Some d \<Rightarrow> d | None \<Rightarrow> emptyLibrary)\<rparr>)
               else w
          else w)"

section \<open>Linking, unlinking and tag editing\<close>

text \<open>\<open>findAllFoldersForChat\<close>: the inner \<open>traverse\<close> pushes onto \<open>results\<close>.\<close>

fun traverseForChat :: "string \<Rightarrow> folder list \<Rightarrow> folder list \<Rightarrow> folder list" where
  "traverseForChat chatId [] results = results"
| "traverseForChat chatId (Folder fi n cs subs a so # rest) results =
     traverseForChat chatId rest
       (traverseForChat chatId subs
          (if chatId \<in> set cs then results @ [Folder fi n cs subs a so] else results))"

definition findAllFoldersForChat :: "string \<Rightarrow> library \<Rightarrow> folder list" where
  "findAllFoldersForChat chatId lib = traverseForChat chatId (folders lib) []"

text \<open>
  \<open>saveChatToFolder\<close>. \<open>now\<close> is what \<open>Date.now()\<close> returns while the entry is built. The
  entry of \<open>allChats\<close> is written before the folder's \<open>chatIds\<close> is looked at; the boolean
  is the function's result. The toast, the button animation and the closing of the menu
  after a save change nothing in the state.
\<close>

definition sanitizedTags :: "string list \<Rightarrow> string list" where
  "sanitizedTags tgs = map (\<lambda>t. CHR ''#'' # stripHashes (trim t)) tgs"

definition saveChatToFolder ::
  "host \<Rightarrow> int \<Rightarrow> jsval \<Rightarrow> string \<Rightarrow> string \<Rightarrow> string list \<Rightarrow> string \<Rightarrow> world \<Rightarrow> bool \<times> world" where
  "saveChatToFolder h now folderId chatId chatTitle tgs note w =
     (case getFolderContext folderId (folders (folderData w)) of
        None \<Rightarrow> (False, w)
      | Some ctx \<Rightarrow>
          let fd = folderData w;
              entry = \<lparr>chat_id = chatId, title = chatTitle, tags = sanitizedTags tgs,
                       annotation = note,
                       timestamp = (case map_of (allChats fd) chatId of
                                      Some old \<Rightarrow> if timestamp old \<noteq> 0 then timestamp old else now
                                    | None \<Rightarrow> now),
                       updatedAt = now\<rparr>;
              fd1 = fd\<lparr>allChats := AList.update chatId entry (allChats fd)\<rparr>
          in if chatId \<notin> set (chatIds (folder ctx))
             then
               let fd2 = fd1\<lparr>folders := modifyFolder ctx
                                            (\<lambda>f. setChatIds (chatIds f @ [chatId]) f) (folders fd1)\<rparr>
               in (True, saveAndRefresh h (w\<lparr>folderData := fd2\<rparr>))
             else (False, w\<lparr>folderData := fd1\<rparr>))"

text \<open>\<open>s.split(',')\<close>: the pieces between commas, one piece for a string without a comma.\<close>

fun split :: "char \<Rightarrow> string \<Rightarrow> string list" where
  "split sep [] = [[]]"
| "split sep (c # cs) =
     (if c = sep then [] # split sep cs
      else (c # hd (split sep cs)) # tl (split sep cs))"

text \<open>
  \<open>editChatTags\<close>. \<open>newTagString\<close> is the answer to the prompt, \<open>None\<close> when the user
  cancels.
\<close>

definition editedTags :: "string \<Rightarrow> string list" where
  "editedTags newTagString =
     List.map_filter
       (\<lambda>t. let clean = stripHashes (trim t)
            in if length clean > 0 then Some (CHR ''#'' # clean) else None)
       (split CHR '','' newTagString)"

definition editChatTags :: "host \<Rightarrow> int \<Rightarrow> string option \<Rightarrow> string \<Rightarrow> world \<Rightarrow> world" where
  "editChatTags h now answer chatId w =
     (case map_of (allChats (folderData w)) chatId of
        None \<Rightarrow> w
      | Some c \<Rightarrow>
          (case answer of
             None \<Rightarrow> w
           | Some newTagString \<Rightarrow>
               let fd = folderData w;
                   c' = c\<lparr>tags := editedTags newTagString, updatedAt := now\<rparr>
               in saveAndRefresh h
                    (w\<lparr>folderData := fd\<lparr>allChats := AList.update chatId c' (allChats fd)\<rparr>\<rparr>)))"

text \<open>Every folder of the tree that holds \<open>chatId\<close> loses it (the global delete).\<close>

fun unlinkEverywhere :: "string \<Rightarrow> folder list \<Rightarrow> folder list" where
  "unlinkEverywhere chatId [] = []"
| "unlinkEverywhere chatId (Folder fi n cs subs a so # rest) =
     Folder fi n (if chatId \<in> set cs then filter (\<lambda>k. k \<noteq> chatId) cs else cs)
       (unlinkEverywhere chatId subs) a so
     # unlinkEverywhere chatId rest"

text \<open>
  \<open>removeChatFromFolder\<close>. \<open>confirmed\<close> is the user's answer to the confirmation, read
  only where the source asks.
\<close>

definition removeChatFromFolder :: "host \<Rightarrow> bool \<Rightarrow> string \<Rightarrow> jsval \<Rightarrow> world \<Rightarrow> world" where
  "removeChatFromFolder h confirmed chatId folderId w =
     (let fd = folderData w
      in if folderId = Null
         then
           if \<not> confirmed then w
           else saveAndRefresh h
                  (w\<lparr>folderData := fd\<lparr>folders := unlinkEverywhere chatId (folders fd),
                                       allChats := AList.delete chatId (allChats fd)\<rparr>\<rparr>)
         else
           (case getFolderContext folderId (folders fd) of
              None \<Rightarrow> w
            | Some ctx \<Rightarrow>
                let currentLinks = findAllFoldersForChat chatId fd
                in if length currentLinks = 1 \<and> \<not> confirmed then w
                   else
                     let fd1 = fd\<lparr>folders := modifyFolder ctx
                                   (\<lambda>f. setChatIds (filter (\<lambda>k. k \<noteq> chatId) (chatIds f)) f)
                                   (folders fd)\<rparr>;
                         remainingLinks = findAllFoldersForChat chatId fd1;
                         fd2 = (if length remainingLinks = 0
                                then fd1\<lparr>allChats := AList.delete chatId (allChats fd1)\<rparr>
                                else fd1)
                     in saveAndRefresh h (w\<lparr>folderData := fd2\<rparr>)))"

section \<open>Moving a folder\<close>

text \<open>
  \<open>handleMoveFolder\<close>: the folder is spliced out of the array that holds it, and then
  pushed onto the root array or onto the subfolders of the target, which is looked up in the
  tree as the splice left it.
\<close>

definition handleMoveFolder :: "host \<Rightarrow> jsval \<Rightarrow> jsval \<Rightarrow> world \<Rightarrow> world" where
  "handleMoveFolder h folderId targetParentId w =
     (case getFolderContext folderId (folders (folderData w)) of
        None \<Rightarrow> w
      | Some ctx \<Rightarrow>
          let fd = folderData w;
              folderToMove = folder ctx;
              fs1 = spliceOut ctx (folders fd);
              fs2 = (if targetParentId = Str ''root'' then fs1 @ [folderToMove]
                     else (case getFolderContext targetParentId fs1 of
                             Some targetContext \<Rightarrow>
                               modifyFolder targetContext
                                 (\<lambda>f. setSubfolders (subfolders f @ [folderToMove]) f) fs1
                           | None \<Rightarrow> fs1))
          in saveAndRefresh h (w\<lparr>folderData := fd\<lparr>folders := fs2\<rparr>\<rparr>))"

text \<open>
  The targets that \<open>showMoveFolderMenu\<close> offers. \<open>isDescendant\<close> walks the subtree of the
  moving folder; the menu's \<open>traverse\<close> skips the moving folder and every folder for which
  \<open>isDescendant\<close> holds, with all that lies below them. When the moving folder is not in
  the tree, \<open>isDescendant(null, ...)\<close> throws on the first folder visited: \<open>None\<close>.
\<close>

fun isDescendant :: "folder \<Rightarrow> jsval \<Rightarrow> bool" where
  "isDescendant (Folder fi n cs subs a so) childId =
     (list_ex (\<lambda>sf. looseEq (Num (folder_id sf)) childId) subs
      \<or> list_ex (\<lambda>sf. isDescendant sf childId) subs)"

fun traverseTargets :: "jsval \<Rightarrow> folder \<Rightarrow> folder list \<Rightarrow> folder list" where
  "traverseTargets folderId folderMoving [] = []"
| "traverseTargets folderId folderMoving (Folder fi n cs subs a so # rest) =
     (if looseEq (Num fi) folderId then []
      else if isDescendant folderMoving (Num fi) then []
      else Folder fi n cs subs a so # traverseTargets folderId folderMoving subs)
     @ traverseTargets folderId folderMoving rest"

definition validTargets :: "jsval \<Rightarrow> folder list \<Rightarrow> folder list option" where
  "validTargets folderId fs =
     (case getFolderContext folderId fs of
        None \<Rightarrow> if fs = [] then Some [] else None
      | Some ctxMoving \<Rightarrow> Some (traverseTargets folderId (folder ctxMoving) fs))"

section \<open>Query engine\<close>

datatype tokenType = T_text | T_not_text | T_tag | T_not_tag

record token =
  ttype :: tokenType
  val :: string

text \<open>
  One attempt of the pattern \<open>(-?)(?:"([^"]+)"|([^\s]+))\<close> at the start of a string. A
  successful attempt gives the groups 1, 2 and 3 and what follows the match.
\<close>

definition quotedPhrase :: "string \<Rightarrow> (string \<times> string) option" where
  "quotedPhrase s =
     (case s of
        [] \<Rightarrow> None
      | c # r \<Rightarrow>
          if c = CHR 0x22
          then let body = takeWhile (\<lambda>d. d \<noteq> CHR 0x22) r;
                   after = dropWhile (\<lambda>d. d \<noteq> CHR 0x22) r
               in if body \<noteq> [] \<and> after \<noteq> [] then Some (body, tl after) else None
          else None)"

definition standardWord :: "string \<Rightarrow> (string \<times> string) option" where
  "standardWord s =
     (let w = takeWhile (\<lambda>d. \<not> isSpace d) s
      in if w \<noteq> [] then Some (w, dropWhile (\<lambda>d. \<not> isSpace d) s) else None)"

definition alternatives :: "string \<Rightarrow> (string option \<times> string option \<times> string) option" where
  "alternatives s =
     (case quotedPhrase s of
        Some (body, r) \<Rightarrow> Some (Some body, None, r)
      | None \<Rightarrow> (case standardWord s of
                   Some (w, r) \<Rightarrow> Some (None, Some w, r)
                 | None \<Rightarrow> None))"

definition matchHere :: "string \<Rightarrow> (string \<times> string option \<times> string option \<times> string) option" where
  "matchHere s =
     (case s of
        [] \<Rightarrow> None
      | c # r \<Rightarrow>
          if c = CHR ''-''
          then (case alternatives r of
                  Some (m2, m3, rest) \<Rightarrow> Some (''-'', m2, m3, rest)
                | None \<Rightarrow> map_option (\<lambda>(m2, m3, rest). ([], m2, m3, rest)) (alternatives s))
          else map_option (\<lambda>(m2, m3, rest). ([], m2, m3, rest)) (alternatives s))"

text \<open>The body of the \<open>while\<close> loop of \<open>renderSearchResults\<close>: the tokens of one match.\<close>

definition tokenOf :: "string \<Rightarrow> string option \<Rightarrow> string option \<Rightarrow> token list" where
  "tokenOf m1 m2 m3 =
     (let isNegative = (m1 = ''-'');
          rawValue = (case m2 of Some q \<Rightarrow> q | None \<Rightarrow> (case m3 of Some u \<Rightarrow> u | None \<Rightarrow> []))
      in if rawValue = [] then []
         else
           let v = toLowerCase rawValue
           in if m2 \<noteq> None
              then [\<lparr>ttype = (if isNegative then T_not_text else T_text), val = v\<rparr>]
              else if startsWith v ''#''
              then [\<lparr>ttype = (if isNegative then T_not_tag else T_tag), val = tl v\<rparr>]
              else [\<lparr>ttype = (if isNegative then T_not_text else T_text), val = v\<rparr>])"

text \<open>
  The \<open>while ((match = regex.exec(query)) !== null)\<close> loop: the pattern is tried at each
  position from \<open>lastIndex\<close> on, and the search resumes after the match.
\<close>

function tokenize :: "string \<Rightarrow> token list" where
  "tokenize s =
     (case matchHere s of
        None \<Rightarrow> (case s of [] \<Rightarrow> [] | c # r \<Rightarrow> tokenize r)
      | Some (m1, m2, m3, rest) \<Rightarrow> tokenOf m1 m2 m3 @ tokenize rest)"
  by pat_completeness auto
termination
proof (relation "measure length")
  show "wf (measure length)" by simp
next
  fix s :: string and c r
  assume "s = c # r"
  then show "(r, s) \<in> measure length" by simp
next
  fix s :: string and x m1 y m2 z m3 rest
  assume m: "matchHere s = Some x" and x: "(m1, y) = x" "(m2, z) = y" "(m3, rest) = z"
  have q: "length r < length t" if "quotedPhrase t = Some (b, r)" for t b r
    using that length_dropWhile_le [of "\<lambda>d. d \<noteq> CHR 0x22" "tl t"]
    by (cases t; cases "dropWhile (\<lambda>d. d \<noteq> CHR 0x22) (tl t)")
       (auto simp: quotedPhrase_def Let_def split: if_splits)
  have w: "length r < length t" if "standardWord t = Some (b, r)" for t b r
  proof -
    from that have ne: "takeWhile (\<lambda>d. \<not> isSpace d) t \<noteq> []"
      and r: "r = dropWhile (\<lambda>d. \<not> isSpace d) t"
      by (auto simp: standardWord_def Let_def split: if_splits)
    have "length (takeWhile (\<lambda>d. \<not> isSpace d) t) + length r = length t"
      unfolding r by (metis length_append takeWhile_dropWhile_id)
    with ne show ?thesis by (cases "takeWhile (\<lambda>d. \<not> isSpace d) t") auto
  qed
  have a: "length r < length t" if "alternatives t = Some (p, u, r)" for t p u r
    using that q [of t] w [of t]
    by (auto simp: alternatives_def split: option.splits)
  from m x have "matchHere s = Some (m1, m2, m3, rest)" by auto
  then have "length rest < length s"
    using a by (cases s) (auto simp: matchHere_def split: if_splits option.splits dest!: a)
  then show "(rest, s) \<in> measure length" by simp
qed

declare tokenize.simps [simp del]

definition isMatch :: "chat \<Rightarrow> token list \<Rightarrow> bool" where
  "isMatch c tokens =
     list_all
       (\<lambda>tk. let ttl = toLowerCase (title c);
                 note = toLowerCase (annotation c);
                 tgs = map toLowerCase (tags c)
             in if ttype tk = T_tag then list_ex (\<lambda>t. includesStr t (val tk)) tgs
                else if ttype tk = T_not_tag then \<not> list_ex (\<lambda>t. includesStr t (val tk)) tgs
                else if ttype tk = T_not_text
                then \<not> includesStr ttl (val tk) \<and> \<not> includesStr note (val tk)
                else includesStr ttl (val tk) \<or> includesStr note (val tk))
       tokens"

section \<open>Notions used to state the properties\<close>

text \<open>
  The array found at an address, the position of the \<open>j\<close>-th folder of that array in
  \<open>allFolders\<close>, the ids and the shape of a tree without anything else, and the fields of
  a folder other than its subfolders.
\<close>

fun arrayAt :: "nat list \<Rightarrow> folder list \<Rightarrow> folder list option" where
  "arrayAt [] fs = Some fs"
| "arrayAt (k # p) fs = (if k < length fs then arrayAt p (subfolders (fs ! k)) else None)"

fun preorderIndex :: "nat list \<Rightarrow> nat \<Rightarrow> folder list \<Rightarrow> nat" where
  "preorderIndex [] j fs = length (allFolders (take j fs))"
| "preorderIndex (k # p) j fs =
     length (allFolders (take k fs)) + 1 + preorderIndex p j (subfolders (fs ! k))"

datatype skeleton = Skeleton int "skeleton list"

fun skeletonOf :: "folder \<Rightarrow> skeleton" where
  "skeletonOf (Folder fi n cs subs a so) = Skeleton fi (map skeletonOf subs)"

definition shallow :: "folder \<Rightarrow> int \<times> string \<times> string list \<times> string \<times> string option" where
  "shallow f = (folder_id f, name f, chatIds f, folder_annotation f, sortOrder f)"

abbreviation folderList :: "world \<Rightarrow> folder list" where
  "folderList w \<equiv> allFolders (folders (folderData w))"

section \<open>Example libraries\<close>

text \<open>
  The library of the specification's scenario: a root folder "Research" that holds chat
  \<open>c1\<close>, and the same library with a subfolder "Drafts", a folder below it and a second
  root folder.
\<close>

definition research :: folder where
  "research = Folder 1 ''Research'' [''c1''] [] [] None"

definition pricing :: chat where
  "pricing = \<lparr>chat_id = ''c1'', title = ''Pricing Study'', tags = [''#strategy''],
              annotation = ''first note'', timestamp = 1000, updatedAt = 1000\<rparr>"

definition world1 :: world where
  "world1 = \<lparr>folderData = \<lparr>folders = [research], allChats = [(''c1'', pricing)],
                             pinnedSearches = []\<rparr>,
             storage = None, renders = 0, skips = 0, events = []\<rparr>"

definition drafts :: folder where
  "drafts = Folder 2 ''Drafts'' [] [Folder 3 ''Old'' [] [] [] None] [] None"

definition tree2 :: "folder list" where
  "tree2 = [Folder 1 ''Research'' [''c1''] [drafts] [] None, Folder 4 ''Misc'' [] [] [] None]"

definition world2 :: world where
  "world2 = \<lparr>folderData = \<lparr>folders = tree2, allChats = [(''c1'', pricing)],
                             pinnedSearches = []\<rparr>,
             storage = None, renders = 0, skips = 0, events = []\<rparr>"

text \<open>A host whose serialization of every library has \<open>n\<close> bytes.\<close>

definition hostOfSize :: "nat \<Rightarrow> host" where
  "hostOfSize n = \<lparr>runtime_id = True, stringify = (\<lambda>l. replicate n CHR ''x''), lastError = None\<rparr>"

definition world0 :: world where
  "world0 = \<lparr>folderData = emptyLibrary, storage = None, renders = 0, skips = 0, events = []\<rparr>"

text \<open>Two root folders that both hold \<open>c1\<close>.\<close>

definition world3 :: world where
  "world3 = \<lparr>folderData = \<lparr>folders = [research, Folder 4 ''Misc'' [''c1''] [] [] None],
                             allChats = [(''c1'', pricing)], pinnedSearches = []\<rparr>,
             storage = None, renders = 0, skips = 0, events = []\<rparr>"

section \<open>Properties of folder lookup and of writes through a context\<close>

lemma getFolderContextFrom_sound:
  "getFolderContextFrom x addr i fs = Some c \<Longrightarrow> length pre = i \<Longrightarrow>
     \<exists>p l. siblings c = addr @ p \<and> arrayAt p (pre @ fs) = Some l \<and> index c < length l
           \<and> l ! index c = folder c \<and> looseEq (Num (folder_id (folder c))) x"
proof (induction x addr i fs arbitrary: pre c rule: getFolderContextFrom.induct)
  case (1 x addr i)
  then show ?case by simp
next
  case (2 x addr i fi n cs subs a so rest)
  let ?f = "Folder fi n cs subs a so"
  show ?case
  proof (cases "looseEq (Num fi) x")
    case True
    with "2.prems" have "c = \<lparr>folder = ?f, siblings = addr, index = i\<rparr>" by simp
    with True "2.prems" show ?thesis
      by (intro exI [of _ "[]"] exI [of _ "pre @ ?f # rest"]) (simp add: nth_append)
  next
    case False
    show ?thesis
    proof (cases "subs \<noteq> [] \<and> getFolderContextFrom x (addr @ [i]) 0 subs \<noteq> None")
      case True
      with False "2.prems" have found: "getFolderContextFrom x (addr @ [i]) 0 subs = Some c"
        by (auto split: option.splits)
      from "2.IH"(1) [OF False _ found, of "[]"] True
      obtain p l where pl: "siblings c = (addr @ [i]) @ p" "arrayAt p subs = Some l"
        "index c < length l" "l ! index c = folder c" "looseEq (Num (folder_id (folder c))) x"
        by auto
      with "2.prems" show ?thesis
        by (intro exI [of _ "i # p"] exI [of _ l]) (simp add: nth_append)
    next
      case nosub: False
      with False "2.prems" have found: "getFolderContextFrom x addr (Suc i) rest = Some c"
        by (auto split: option.splits if_splits)
      have "\<exists>p l. siblings c = addr @ p \<and> arrayAt p ((pre @ [?f]) @ rest) = Some l
              \<and> index c < length l \<and> l ! index c = folder c
              \<and> looseEq (Num (folder_id (folder c))) x"
      proof (cases "subs = []")
        case True
        from "2.IH"(3) [OF False _ found, of "pre @ [?f]"] True "2.prems" show ?thesis by simp
      next
        case ne: False
        with nosub have none: "getFolderContextFrom x (addr @ [i]) 0 subs = None" by simp
        from "2.IH"(2) [OF False ne none found, of "pre @ [?f]"] "2.prems" show ?thesis by simp
      qed
      then show ?thesis by simp
    qed
  qed
qed

lemma getFolderContext_sound:
  "getFolderContext x fs = Some c \<Longrightarrow>
     \<exists>l. arrayAt (siblings c) fs = Some l \<and> index c < length l
           \<and> l ! index c = folder c \<and> looseEq (Num (folder_id (folder c))) x"
  using getFolderContextFrom_sound [of x "[]" 0 fs c "[]"]
  by (auto simp: getFolderContext_def)


lemma allFolders_Cons: "allFolders (f # rest) = f # allFolders (subfolders f) @ allFolders rest"
  by (cases f) simp

lemma allFolders_append: "allFolders (xs @ ys) = allFolders xs @ allFolders ys"
  by (induction xs rule: allFolders.induct) simp_all

lemma allFolders_split:
  "k < length fs \<Longrightarrow>
     allFolders fs = allFolders (take k fs) @ fs ! k # allFolders (subfolders (fs ! k))
                       @ allFolders (drop (Suc k) fs)"
  using allFolders_append [of "take k fs" "fs ! k # drop (Suc k) fs"]
  by (simp add: allFolders_Cons id_take_nth_drop [symmetric])

lemma allFolders_update:
  "k < length fs \<Longrightarrow>
     allFolders (fs[k := e]) = allFolders (take k fs) @ e # allFolders (subfolders e)
                       @ allFolders (drop (Suc k) fs)"
  using allFolders_append [of "take k fs" "e # drop (Suc k) fs"]
  by (simp add: allFolders_Cons upd_conv_take_nth_drop)

lemma shallow_setSubfolders [simp]: "shallow (setSubfolders s f) = shallow f"
  by (cases f) (simp add: shallow_def)

lemma subfolders_setSubfolders [simp]: "subfolders (setSubfolders s f) = s"
  by (cases f) simp

lemma preorderIndex_nth:
  "arrayAt p fs = Some l \<Longrightarrow> j < length l \<Longrightarrow>
     preorderIndex p j fs < length (allFolders fs) \<and> allFolders fs ! preorderIndex p j fs = l ! j"
proof (induction p arbitrary: fs)
  case Nil
  then have "l = fs" "j < length fs" by simp_all
  then show ?case by (simp add: allFolders_split [of j fs] nth_append)
next
  case (Cons k p)
  then have k: "k < length fs" and a: "arrayAt p (subfolders (fs ! k)) = Some l"
    by (auto split: if_splits)
  from Cons.IH [OF a Cons.prems(2)] k show ?case
    by (simp add: allFolders_split [of k fs] nth_append)
qed


lemma shallow_updateAt:
  "arrayAt p fs = Some l \<Longrightarrow> j < length l \<Longrightarrow> subfolders (g (l ! j)) = subfolders (l ! j) \<Longrightarrow>
     map shallow (allFolders (updateAt p (updateIndex j g) fs))
       = (map shallow (allFolders fs))[preorderIndex p j fs := shallow (g (l ! j))]"
proof (induction p arbitrary: fs)
  case Nil
  then have "l = fs" "j < length fs" "subfolders (g (fs ! j)) = subfolders (fs ! j)" by simp_all
  then show ?case
    by (simp add: updateIndex_def allFolders_update allFolders_split [of j fs] list_update_append)
next
  case (Cons k p)
  then have k: "k < length fs" and a: "arrayAt p (subfolders (fs ! k)) = Some l"
    by (auto split: if_splits)
  from preorderIndex_nth [OF a Cons.prems(2)]
  have lt: "preorderIndex p j (subfolders (fs ! k)) < length (allFolders (subfolders (fs ! k)))"
    by simp
  from Cons.IH [OF a Cons.prems(2) Cons.prems(3)] k lt show ?case
    by (simp add: allFolders_update allFolders_split [of k fs] list_update_append)
qed

lemma arrayAt_updateAt:
  "arrayAt p fs = Some l \<Longrightarrow> arrayAt p (updateAt p g fs) = Some (g l)"
  by (induction p arbitrary: fs) (auto split: if_splits)

lemma skeleton_updateAt:
  "arrayAt p fs = Some l \<Longrightarrow> map skeletonOf (g l) = map skeletonOf l \<Longrightarrow>
     map skeletonOf (updateAt p g fs) = map skeletonOf fs"
proof (induction p arbitrary: fs)
  case Nil
  then show ?case by simp
next
  case (Cons k p)
  then have k: "k < length fs" and a: "arrayAt p (subfolders (fs ! k)) = Some l"
    by (auto split: if_splits)
  have "skeletonOf (setSubfolders (updateAt p g (subfolders (fs ! k))) (fs ! k)) = skeletonOf (fs ! k)"
    using Cons.IH [OF a Cons.prems(2)] by (cases "fs ! k") simp
  with k show ?case by (simp add: map_update list_update_same_conv)
qed

lemma getFolderContextFrom_skeleton:
  "map skeletonOf fs = map skeletonOf fs' \<Longrightarrow>
     map_option (\<lambda>c. (siblings c, index c)) (getFolderContextFrom x addr i fs)
       = map_option (\<lambda>c. (siblings c, index c)) (getFolderContextFrom x addr i fs')"
proof (induction x addr i fs arbitrary: fs' rule: getFolderContextFrom.induct)
  case (1 x addr i)
  then show ?case by simp
next
  case (2 x addr i fi n cs subs a so rest)
  from "2.prems" obtain f' rest' where fs': "fs' = f' # rest'"
    and sk: "skeletonOf f' = Skeleton fi (map skeletonOf subs)"
    and r: "map skeletonOf rest = map skeletonOf rest'"
    by (cases fs') auto
  obtain n' cs' subs' a' so' where f': "f' = Folder fi n' cs' subs' a' so'"
    and s: "map skeletonOf subs = map skeletonOf subs'"
    using sk by (cases f') auto
  from s have e: "subs = [] \<longleftrightarrow> subs' = []" by (cases subs; cases subs') auto
  show ?case
  proof (cases "looseEq (Num fi) x")
    case True
    then show ?thesis by (simp add: fs' f')
  next
    case False
    show ?thesis
    proof (cases "subs = []")
      case True
      with False e "2.IH"(3) [OF False _ r] show ?thesis by (simp add: fs' f')
    next
      case ne: False
      note ih1 = "2.IH"(1) [OF False ne s]
      show ?thesis
      proof (cases "getFolderContextFrom x (addr @ [i]) 0 subs")
        case None
        with ih1 have "getFolderContextFrom x (addr @ [i]) 0 subs' = None" by simp
        with None False ne e "2.IH"(2) [OF False ne None r] show ?thesis by (simp add: fs' f')
      next
        case (Some c)
        with ih1 obtain c' where "getFolderContextFrom x (addr @ [i]) 0 subs' = Some c'"
          "(siblings c, index c) = (siblings c', index c')" by (auto simp: map_option_case split: option.splits)
        with Some False ne e show ?thesis by (simp add: fs' f')
      qed
    qed
  qed
qed

lemma skeletonOf_eq:
  "skeletonOf f = skeletonOf f' \<longleftrightarrow>
     folder_id f = folder_id f' \<and> map skeletonOf (subfolders f) = map skeletonOf (subfolders f')"
  by (cases f; cases f') simp

lemma getFolderContext_modifyFolder:
  assumes c: "getFolderContext x fs = Some c"
    and g: "skeletonOf (g (folder c)) = skeletonOf (folder c)"
  shows "getFolderContext x (modifyFolder c g fs) = Some (c\<lparr>folder := g (folder c)\<rparr>)"
proof -
  let ?fs' = "modifyFolder c g fs"
  from getFolderContext_sound [OF c] obtain l where l: "arrayAt (siblings c) fs = Some l"
    "index c < length l" "l ! index c = folder c" by auto
  from l g have "map skeletonOf (updateIndex (index c) g l) = map skeletonOf l"
    by (simp add: updateIndex_def map_update list_update_same_conv)
  from skeleton_updateAt [where g = "updateIndex (index c) g", OF l(1) this]
  have sk: "map skeletonOf ?fs' = map skeletonOf fs" by (simp add: modifyFolder_def)
  from getFolderContextFrom_skeleton [OF sk, of x "[]" 0] c
  obtain c' where c': "getFolderContext x ?fs' = Some c'"
    and same: "siblings c' = siblings c" "index c' = index c"
    by (auto simp: getFolderContext_def)
  from getFolderContext_sound [OF c'] same obtain l' where
    l': "arrayAt (siblings c) ?fs' = Some l'" "l' ! index c = folder c'" by auto
  from arrayAt_updateAt [OF l(1), of "updateIndex (index c) g"] l'(1)
  have "l' = updateIndex (index c) g l" by (simp add: modifyFolder_def)
  with l l'(2) have "folder c' = g (folder c)" by (simp add: updateIndex_def)
  with same have "c' = c\<lparr>folder := g (folder c)\<rparr>" by (cases c; cases c') simp
  with c' show ?thesis by simp
qed

lemma shallow_modifyFolder:
  assumes c: "getFolderContext x fs = Some c"
    and g: "subfolders (g (folder c)) = subfolders (folder c)"
  shows "\<exists>k < length (allFolders fs). allFolders fs ! k = folder c
           \<and> map shallow (allFolders (modifyFolder c g fs))
               = (map shallow (allFolders fs))[k := shallow (g (folder c))]"
proof -
  from getFolderContext_sound [OF c] obtain l where l: "arrayAt (siblings c) fs = Some l"
    "index c < length l" "l ! index c = folder c" by auto
  from preorderIndex_nth [OF l(1) l(2)] shallow_updateAt [OF l(1) l(2), of g] l(3) g
  show ?thesis
    by (intro exI [of _ "preorderIndex (siblings c) (index c) fs"]) (simp add: modifyFolder_def)
qed

lemma traverseForChat_eq:
  "traverseForChat chatId fs res = res @ filter (\<lambda>f. chatId \<in> set (chatIds f)) (allFolders fs)"
  by (induction chatId fs res rule: traverseForChat.induct) auto

lemma findAllFoldersForChat_empty:
  "length (findAllFoldersForChat chatId lib) = 0
     \<longleftrightarrow> (\<forall>cs \<in> set (map chatIds (allFolders (folders lib))). chatId \<notin> set cs)"
  by (auto simp: findAllFoldersForChat_def traverseForChat_eq filter_empty_conv)

lemma chatIds_shallow: "map chatIds fs = map (\<lambda>s. fst (snd (snd s))) (map shallow fs)"
  by (simp add: shallow_def)

lemma folder_id_shallow: "map folder_id fs = map fst (map shallow fs)"
  by (simp add: shallow_def)

lemma getFolderContext_Null [simp]: "getFolderContextFrom Null addr i fs = None"
  by (induction Null addr i fs rule: getFolderContextFrom.induct) auto

section \<open>Properties of the garbage collector\<close>

lemma traverseReferenced_eq:
  "traverseReferenced fs acc = acc \<union> (\<Union>f \<in> set (allFolders fs). set (chatIds f))"
  by (induction fs acc rule: traverseReferenced.induct) auto

text \<open>
  C6: \<open>findUnlinked\<close> returns exactly the keys of \<open>allChats\<close> that no folder of the tree
  references, at any depth, and so nothing it returns is a referenced id.
\<close>

theorem findUnlinked_exact:
  "set (findUnlinked lib) = fst ` set (allChats lib) - referencedIds lib
   \<and> set (findUnlinked lib) \<inter> referencedIds lib = {}"
  by (auto simp: findUnlinked_def referencedIds_def traverseReferenced_eq)

section \<open>Properties of the quota gatekeeper\<close>

lemma folderData_saveAndRefresh [simp]: "folderData (saveAndRefresh h w) = folderData w"
  by (simp add: saveAndRefresh_def refreshFolderList_def Let_def split: option.splits)

text \<open>
  C1: with the extension context alive, a save of a library whose serialization measures
  exactly 100,352 bytes hands the library to \<open>chrome.storage.sync.set\<close>; at 100,353 bytes
  or more nothing is handed to the port, the stored value stays as it was, and the user is
  shown the measured size (in kilobytes, to one decimal) before the storage statistics are
  redrawn.
\<close>

theorem saveAndRefresh_quota_boundary:
  assumes "runtime_id h"
  shows "(length (stringify h (folderData w)) = 100352 \<longrightarrow>
            syncSetCalls (saveAndRefresh h w) = syncSetCalls w @ [folderData w])
       \<and> (100353 \<le> length (stringify h (folderData w)) \<longrightarrow>
            syncSetCalls (saveAndRefresh h w) = syncSetCalls w
          \<and> storage (saveAndRefresh h w) = storage w
          \<and> events (saveAndRefresh h w)
              = events w @ [Alert_storage_full (toFixed1 (length (stringify h (folderData w)))),
                            UpdateStorageStats])"
  using assms
  by (auto simp: saveAndRefresh_def refreshFolderList_def Let_def QUOTA_LIMIT_def SAFETY_BUFFER_def
        syncSetCalls_def map_filter_def split: option.splits)

theorem saveAndRefresh_quota_boundary_witness:
  "runtime_id (hostOfSize 100352) \<and> runtime_id (hostOfSize 100353)
   \<and> length (stringify (hostOfSize 100352) (folderData world0)) = 100352
   \<and> 100353 \<le> length (stringify (hostOfSize 100353) (folderData world0))
   \<and> syncSetCalls (saveAndRefresh (hostOfSize 100352) world0) = [emptyLibrary]
   \<and> syncSetCalls (saveAndRefresh (hostOfSize 100353) world0) = []
   \<and> storage (saveAndRefresh (hostOfSize 100353) world0) = None
   \<and> events (saveAndRefresh (hostOfSize 100353) world0)
        = [Alert_storage_full 980, UpdateStorageStats]"
  using saveAndRefresh_quota_boundary [of "hostOfSize 100352" world0]
        saveAndRefresh_quota_boundary [of "hostOfSize 100353" world0]
  by (simp add: hostOfSize_def world0_def syncSetCalls_def map_filter_def toFixed1_def)

section \<open>Properties of the sync reconciler\<close>

lemma onChanged_equal_unchanged:
  "stringify h d = stringify h (folderData w) \<Longrightarrow> onChanged h (Some (Some d)) ''sync'' w = w"
  by (simp add: onChanged_def)

lemma onChanged_differs_replaces:
  "stringify h d \<noteq> stringify h (folderData w) \<Longrightarrow>
     onChanged h (Some (Some d)) ''sync'' w = refreshFolderList (w\<lparr>folderData := d\<rparr>)"
  by (simp add: onChanged_def)

text \<open>
  C9: a notification whose new value is the current library leaves the whole state of the
  instance as it was, the skipped-refresh counter included: the listener never writes
  \<open>maktabaStats.skips\<close>, whatever the notification.
\<close>

theorem onChanged_never_counts_skip:
  "onChanged h (Some (Some (folderData w))) ''sync'' w = w
   \<and> skips (onChanged h change namespace w) = skips w"
  by (simp add: onChanged_def refreshFolderList_def split: option.splits)

section \<open>Properties of the query engine\<close>

lemma tokenize_work:
  \<open>tokenize ''#work -"old project"''
     = [\<lparr>ttype = T_tag, val = ''work''\<rparr>, \<lparr>ttype = T_not_text, val = ''old project''\<rparr>]\<close>
  by code_simp

text \<open>
  C7: under the query \<open>#work -"old project"\<close> a chat matches exactly when one of its tags
  contains \<open>work\<close> and neither its title nor its annotation contains \<open>old project\<close>, letter
  case aside. So a chat with such a tag and without the phrase matches, and a chat without
  such a tag does not, with or without the phrase.
\<close>

theorem query_conjunction:
  \<open>isMatch c (tokenize ''#work -"old project"'') \<longleftrightarrow>
     list_ex (\<lambda>t. includesStr (toLowerCase t) ''work'') (tags c)
     \<and> \<not> includesStr (toLowerCase (title c)) ''old project''
     \<and> \<not> includesStr (toLowerCase (annotation c)) ''old project''\<close>
  by (simp add: tokenize_work isMatch_def list_ex_iff)

section \<open>Linking a chat that the folder already holds\<close>

text \<open>What the entry of the chat becomes when the folder already holds the chat.\<close>

lemma saveChatToFolder_present_entry:
  assumes "getFolderContext folderId (folders (folderData w)) = Some ctx"
    and "chatId \<in> set (chatIds (folder ctx))"
  shows "map_of (allChats (folderData (snd (saveChatToFolder h now folderId chatId chatTitle tgs note w))))
           chatId
         = Some \<lparr>chat_id = chatId, title = chatTitle, tags = sanitizedTags tgs, annotation = note,
                  timestamp = (case map_of (allChats (folderData w)) chatId of
                                 Some old \<Rightarrow> if timestamp old \<noteq> 0 then timestamp old else now
                               | None \<Rightarrow> now),
                  updatedAt = now\<rparr>"
  using assms by (simp add: saveChatToFolder_def Let_def update_conv')

text \<open>
  C5: "Research" already holds \<open>c1\<close>. Saving \<open>c1\<close> to it again returns \<open>false\<close>, and
  the entry of \<open>c1\<close> in \<open>allChats\<close> has a new title, new tags, a new annotation and a new
  \<open>updatedAt\<close>.
\<close>

theorem saveChatToFolder_present_overwrites:
  "saveChatToFolder h 2000 (Num 1) ''c1'' ''Renamed'' [''other''] ''second note'' world1
     = (False, world1\<lparr>folderData := (folderData world1)\<lparr>allChats :=
          [(''c1'', \<lparr>chat_id = ''c1'', title = ''Renamed'', tags = [''#other''],
                     annotation = ''second note'', timestamp = 1000, updatedAt = 2000\<rparr>)]\<rparr>\<rparr>)"
  by (simp add: saveChatToFolder_def world1_def research_def pricing_def getFolderContext_def
        sanitizedTags_def trim_def stripHashes_def isSpace_def Let_def)

section \<open>Tag normalization\<close>

text \<open>
  What \<open>editChatTags\<close> does guarantee: a stored tag is one marker and a body that is not
  empty and does not start with a marker.
\<close>

lemma editedTags_shape:
  assumes "t \<in> set (editedTags s)"
  shows "\<exists>b. t = CHR ''#'' # b \<and> b \<noteq> [] \<and> hd b \<noteq> CHR ''#''"
proof -
  from assms obtain piece where t: "t = CHR ''#'' # stripHashes (trim piece)"
    and ne: "stripHashes (trim piece) \<noteq> []"
    by (auto simp: editedTags_def map_filter_def Let_def split: if_splits)
  from ne have "hd (stripHashes (trim piece)) \<noteq> CHR ''#''"
    unfolding stripHashes_def by (metis (mono_tags, lifting) hd_dropWhile)
  with t ne show ?thesis by blast
qed

text \<open>
  C8: \<open>saveChatToFolder\<close> given the tags \<open>work\<close> and the empty string stores \<open>#work\<close> and
  the bare marker \<open>#\<close>; \<open>editChatTags\<close> given \<open># b, # #\<close> stores \<open># b\<close>, whose body starts
  with a space, and \<open># #\<close>, which is made of markers and a space only.
\<close>

theorem tag_normalization_stores_marker_only:
  "map_option tags (map_of (allChats (folderData (snd
      (saveChatToFolder h 2000 (Num 1) ''c2'' ''Linked'' [''work'', ''''] [] world1)))) ''c2'')
     = Some [''#work'', ''#'']
   \<and> map_option tags (map_of (allChats (folderData
      (editChatTags h 2000 (Some ''# b, # #'') ''c1'' world1))) ''c1'')
     = Some [''# b'', ''# #'']"
  by (simp add: saveChatToFolder_def editChatTags_def world1_def research_def pricing_def
        getFolderContext_def sanitizedTags_def editedTags_def trim_def stripHashes_def isSpace_def
        modifyFolder_def updateIndex_def map_filter_def Let_def)

section \<open>Moving a folder into its own subtree\<close>

text \<open>
  The menu's filter: \<open>isDescendant\<close> holds exactly for the ids found below the moving
  folder, and no offered target is the moving folder or lies below it.
\<close>

lemma set_allFolders:
  "set (allFolders fs) = (\<Union>f \<in> set fs. insert f (set (allFolders (subfolders f))))"
  by (induction fs rule: allFolders.induct) auto

lemma isDescendant_iff:
  "isDescendant f x \<longleftrightarrow> (\<exists>g \<in> set (allFolders (subfolders f)). looseEq (Num (folder_id g)) x)"
proof (induction f)
  case (Folder fi n cs subs a so)
  have "isDescendant (Folder fi n cs subs a so) x
      \<longleftrightarrow> (\<exists>sf \<in> set subs. looseEq (Num (folder_id sf)) x \<or> isDescendant sf x)"
    by (auto simp: list_ex_iff)
  also have "\<dots> \<longleftrightarrow> (\<exists>sf \<in> set subs. looseEq (Num (folder_id sf)) x
      \<or> (\<exists>g \<in> set (allFolders (subfolders sf)). looseEq (Num (folder_id g)) x))"
    using Folder.IH by blast
  also have "\<dots> \<longleftrightarrow> (\<exists>g \<in> set (allFolders subs). looseEq (Num (folder_id g)) x)"
    by (subst set_allFolders [of subs]) blast
  finally show ?case by simp
qed

lemma traverseTargets_sound:
  "t \<in> set (traverseTargets x fm fs) \<Longrightarrow>
     \<not> looseEq (Num (folder_id t)) x \<and> \<not> isDescendant fm (Num (folder_id t))"
  by (induction x fm fs rule: traverseTargets.induct) (auto split: if_splits)

lemma validTargets_no_descendant:
  assumes "getFolderContext x fs = Some c" and "validTargets x fs = Some ts" and "t \<in> set ts"
  shows "\<not> looseEq (Num (folder_id t)) x
       \<and> folder_id t \<notin> folder_id ` set (allFolders (subfolders (folder c)))"
  using assms traverseTargets_sound [of t x "folder c" fs]
  by (auto simp: validTargets_def isDescendant_iff)

text \<open>
  C2: "Research" (id 1) holds "Drafts" (id 2), which holds "Old" (id 3). Moving "Research"
  into "Drafts", or into "Old", removes "Research" and all below it from the tree: only the
  other root folder is left. The menu does not offer either target.
\<close>

theorem handleMoveFolder_into_descendant_loses_folder:
  "folders (folderData (handleMoveFolder h (Num 1) (Num 2) world2))
     = [Folder 4 ''Misc'' [] [] [] None]
   \<and> folders (folderData (handleMoveFolder h (Num 1) (Str ''3'') world2))
     = [Folder 4 ''Misc'' [] [] [] None]
   \<and> validTargets (Num 1) tree2 = Some [Folder 4 ''Misc'' [] [] [] None]"
  by (simp add: handleMoveFolder_def world2_def tree2_def drafts_def getFolderContext_def
        spliceOut_def validTargets_def Let_def StringToNumber_def trim_def isSpace_def
        StrDecimalLiteral_def StrUnsignedDecimalLiteral_def isDigit_def decimalValue_def
        digitVal_def scale10_def)

section \<open>Unlinking a chat from one folder\<close>

text \<open>
  C3: \<open>removeChatFromFolder\<close> with the id of a folder that is found, once the user has
  confirmed where the source asks. The folders of the tree keep their ids and their order,
  and the \<open>chatIds\<close> of every folder but the located one are as before; the located folder
  has lost \<open>chatId\<close>. If no other folder references \<open>chatId\<close>, \<open>allChats\<close> has no entry
  for it afterwards; if another folder does, \<open>allChats\<close> is as before.
\<close>

theorem unlink_reclaims_last_reference:
  assumes found: "getFolderContext folderId (folders (folderData w)) = Some ctx"
    and ok: "confirmed \<or> length (findAllFoldersForChat chatId (folderData w)) \<noteq> 1"
  shows "\<exists>k < length (folderList w).
           folderList w ! k = folder ctx
         \<and> map folder_id (folderList (removeChatFromFolder h confirmed chatId folderId w))
             = map folder_id (folderList w)
         \<and> map chatIds (folderList (removeChatFromFolder h confirmed chatId folderId w))
             = (map chatIds (folderList w))[k := filter (\<lambda>c. c \<noteq> chatId) (chatIds (folder ctx))]
         \<and> ((\<forall>j < length (folderList w). j \<noteq> k \<longrightarrow> chatId \<notin> set (chatIds (folderList w ! j)))
              \<longrightarrow> map_of (allChats (folderData (removeChatFromFolder h confirmed chatId folderId w))) chatId = None)
         \<and> ((\<exists>j < length (folderList w). j \<noteq> k \<and> chatId \<in> set (chatIds (folderList w ! j)))
              \<longrightarrow> allChats (folderData (removeChatFromFolder h confirmed chatId folderId w))
                   = allChats (folderData w))"
proof -
  let ?g = "\<lambda>f. setChatIds (filter (\<lambda>k. k \<noteq> chatId) (chatIds f)) f"
  let ?fs = "folders (folderData w)"
  let ?fs' = "modifyFolder ctx ?g ?fs"
  let ?fd1 = "(folderData w)\<lparr>folders := ?fs'\<rparr>"
  let ?w' = "removeChatFromFolder h confirmed chatId folderId w"
  have nn: "folderId \<noteq> Null" using found by (auto simp: getFolderContext_def)
  have g: "subfolders (?g (folder ctx)) = subfolders (folder ctx)"
    "chatIds (?g (folder ctx)) = filter (\<lambda>c. c \<noteq> chatId) (chatIds (folder ctx))"
    "folder_id (?g (folder ctx)) = folder_id (folder ctx)"
    by (cases "folder ctx"; simp)+
  from shallow_modifyFolder [where g = ?g, OF found g(1)] obtain k where k: "k < length (allFolders ?fs)"
    "allFolders ?fs ! k = folder ctx"
    "map shallow (allFolders ?fs') = (map shallow (allFolders ?fs))[k := shallow (?g (folder ctx))]"
    by blast
  have ids: "map folder_id (allFolders ?fs') = map folder_id (allFolders ?fs)"
    unfolding folder_id_shallow k(3) using k(1,2) g(3)
    by (simp add: map_update shallow_def list_update_same_conv)
  have cids: "map chatIds (allFolders ?fs')
      = (map chatIds (allFolders ?fs))[k := filter (\<lambda>c. c \<noteq> chatId) (chatIds (folder ctx))]"
    unfolding chatIds_shallow k(3) using g(2) by (simp add: map_update shallow_def)
  have fd: "folderData ?w' =
      (if length (findAllFoldersForChat chatId ?fd1) = 0
       then ?fd1\<lparr>allChats := AList.delete chatId (allChats ?fd1)\<rparr> else ?fd1)"
    using found ok nn by (auto simp: removeChatFromFolder_def Let_def)
  have fl: "folders (folderData ?w') = ?fs'" unfolding fd by simp
  have empty: "length (findAllFoldersForChat chatId ?fd1) = 0
      \<longleftrightarrow> (\<forall>j < length (allFolders ?fs). j \<noteq> k \<longrightarrow> chatId \<notin> set (chatIds (allFolders ?fs ! j)))"
  proof -
    have "length (findAllFoldersForChat chatId ?fd1) = 0
        \<longleftrightarrow> (\<forall>j < length (allFolders ?fs).
               chatId \<notin> set ((map chatIds (allFolders ?fs))
                    [k := filter (\<lambda>c. c \<noteq> chatId) (chatIds (folder ctx))] ! j))"
      unfolding findAllFoldersForChat_empty by (simp add: cids all_set_conv_all_nth)
    also have "\<dots> \<longleftrightarrow> (\<forall>j < length (allFolders ?fs). j \<noteq> k \<longrightarrow>
               chatId \<notin> set (chatIds (allFolders ?fs ! j)))"
    proof (intro iffI allI impI)
      fix j
      assume a: "\<forall>j < length (allFolders ?fs).
               chatId \<notin> set ((map chatIds (allFolders ?fs))
                    [k := filter (\<lambda>c. c \<noteq> chatId) (chatIds (folder ctx))] ! j)"
        and j: "j < length (allFolders ?fs)" "j \<noteq> k"
      from a j show "chatId \<notin> set (chatIds (allFolders ?fs ! j))"
        by (auto simp: nth_list_update)
    next
      fix j
      assume a: "\<forall>j < length (allFolders ?fs). j \<noteq> k \<longrightarrow>
               chatId \<notin> set (chatIds (allFolders ?fs ! j))"
        and j: "j < length (allFolders ?fs)"
      from a j k(1) show "chatId \<notin> set ((map chatIds (allFolders ?fs))
                    [k := filter (\<lambda>c. c \<noteq> chatId) (chatIds (folder ctx))] ! j)"
        by (cases "j = k") (simp_all add: nth_list_update)
    qed
    finally show ?thesis .
  qed
  show ?thesis
  proof (intro exI [of _ k] conjI impI)
    show "k < length (folderList w)" by (rule k(1))
    show "folderList w ! k = folder ctx" by (rule k(2))
    show "map folder_id (folderList ?w') = map folder_id (folderList w)"
      unfolding fl by (rule ids)
    show "map chatIds (folderList ?w')
        = (map chatIds (folderList w))[k := filter (\<lambda>c. c \<noteq> chatId) (chatIds (folder ctx))]"
      unfolding fl by (rule cids)
  next
    assume "\<forall>j < length (folderList w). j \<noteq> k \<longrightarrow> chatId \<notin> set (chatIds (folderList w ! j))"
    with empty have "length (findAllFoldersForChat chatId ?fd1) = 0" by simp
    then show "map_of (allChats (folderData ?w')) chatId = None"
      unfolding fd by (simp add: delete_conv')
  next
    assume "\<exists>j < length (folderList w). j \<noteq> k \<and> chatId \<in> set (chatIds (folderList w ! j))"
    with empty have "length (findAllFoldersForChat chatId ?fd1) \<noteq> 0" by blast
    then show "allChats (folderData ?w') = allChats (folderData w)"
      unfolding fd by simp
  qed
qed

theorem unlink_reclaims_last_reference_witness:
  "getFolderContext (Num 1) (folders (folderData world1))
     = Some \<lparr>folder = research, siblings = [], index = 0\<rparr>
   \<and> getFolderContext (Num 1) (folders (folderData world3))
     = Some \<lparr>folder = research, siblings = [], index = 0\<rparr>
   \<and> map_of (allChats (folderData
        (removeChatFromFolder (hostOfSize 1) True ''c1'' (Num 1) world1))) ''c1'' = None
   \<and> allChats (folderData (removeChatFromFolder (hostOfSize 1) True ''c1'' (Num 1) world3))
     = [(''c1'', pricing)]
   \<and> map chatIds (folderList (removeChatFromFolder (hostOfSize 1) True ''c1'' (Num 1) world3))
     = [[], [''c1'']]"
proof -
  have f1: "getFolderContext (Num 1) (folders (folderData world1))
      = Some \<lparr>folder = research, siblings = [], index = 0\<rparr>"
    by (simp add: getFolderContext_def world1_def research_def)
  have f3: "getFolderContext (Num 1) (folders (folderData world3))
      = Some \<lparr>folder = research, siblings = [], index = 0\<rparr>"
    by (simp add: getFolderContext_def world3_def research_def)
  have l1: "folderList world1 = [research]"
    by (simp add: world1_def research_def)
  have l3: "folderList world3 = [research, Folder 4 ''Misc'' [''c1''] [] [] None]"
    by (simp add: world3_def research_def)
  have a3: "allChats (folderData world3) = [(''c1'', pricing)]"
    by (simp add: world3_def)
  from unlink_reclaims_last_reference [OF f1, of True "''c1''" "hostOfSize 1"]
  have r1: "map_of (allChats (folderData
        (removeChatFromFolder (hostOfSize 1) True ''c1'' (Num 1) world1))) ''c1'' = None"
    by (auto simp: l1)
  let ?w3 = "removeChatFromFolder (hostOfSize 1) True ''c1'' (Num 1) world3"
  from unlink_reclaims_last_reference [OF f3, of True "''c1''" "hostOfSize 1"]
  obtain k where k: "k < length (folderList world3)"
      "folderList world3 ! k = folder \<lparr>folder = research, siblings = [], index = 0\<rparr>"
    and c: "map chatIds (folderList ?w3)
        = (map chatIds (folderList world3))
            [k := filter (\<lambda>c. c \<noteq> ''c1'')
                    (chatIds (folder \<lparr>folder = research, siblings = [], index = 0\<rparr>))]"
    and keep: "(\<exists>j < length (folderList world3). j \<noteq> k
                  \<and> ''c1'' \<in> set (chatIds (folderList world3 ! j)))
        \<longrightarrow> allChats (folderData ?w3) = allChats (folderData world3)"
    by blast
  have k0: "k = 0"
  proof (cases k)
    case 0
    then show ?thesis .
  next
    case (Suc m)
    with k show ?thesis by (simp add: l3 research_def)
  qed
  have "1 < length (folderList world3) \<and> 1 \<noteq> k
      \<and> ''c1'' \<in> set (chatIds (folderList world3 ! 1))"
    by (simp add: l3 k0)
  with keep have "allChats (folderData ?w3) = allChats (folderData world3)" by blast
  then have r3: "allChats (folderData ?w3) = [(''c1'', pricing)]" by (simp add: a3)
  from c have c3: "map chatIds (folderList ?w3) = [[], [''c1'']]"
    by (simp add: k0 l3 research_def)
  from f1 f3 r1 r3 c3 show ?thesis by simp
qed

section \<open>Linking a chat twice\<close>

lemma count_list_distinct:
  "distinct xs \<Longrightarrow> x \<in> set xs \<Longrightarrow> count_list xs x = 1"
  by (induction xs) auto

lemma folder_in_allFolders:
  "getFolderContext x fs = Some c \<Longrightarrow> folder c \<in> set (allFolders fs)"
proof -
  assume c: "getFolderContext x fs = Some c"
  from getFolderContext_sound [OF c] obtain l where l: "arrayAt (siblings c) fs = Some l"
    "index c < length l" "l ! index c = folder c" by auto
  from preorderIndex_nth [OF l(1) l(2)] l(3) show ?thesis by (metis nth_mem)
qed

lemma saveChatToFolder_present:
  assumes "getFolderContext folderId (folders (folderData w)) = Some ctx"
    and "chatId \<in> set (chatIds (folder ctx))"
  shows "fst (saveChatToFolder h now folderId chatId chatTitle tgs note w) = False"
    and "folders (folderData (snd (saveChatToFolder h now folderId chatId chatTitle tgs note w)))
           = folders (folderData w)"
  using assms by (simp_all add: saveChatToFolder_def Let_def)

lemma saveChatToFolder_absent:
  assumes "getFolderContext folderId (folders (folderData w)) = Some ctx"
    and "chatId \<notin> set (chatIds (folder ctx))"
  shows "fst (saveChatToFolder h now folderId chatId chatTitle tgs note w) = True"
    and "folders (folderData (snd (saveChatToFolder h now folderId chatId chatTitle tgs note w)))
           = modifyFolder ctx (\<lambda>f. setChatIds (chatIds f @ [chatId]) f) (folders (folderData w))"
  using assms by (simp_all add: saveChatToFolder_def Let_def)

text \<open>
  C4: when no folder of the tree holds a chat twice and the folder is found, two calls of
  \<open>saveChatToFolder\<close> with the same folder and the same chat leave the folder with exactly
  one occurrence of the chat, and still no folder of the tree holds a chat twice.
\<close>

theorem link_idempotent:
  assumes found: "getFolderContext folderId (folders (folderData w)) = Some ctx"
    and inv: "\<forall>f \<in> set (folderList w). distinct (chatIds f)"
  shows "\<exists>ctx2.
           getFolderContext folderId
             (folders (folderData (snd (saveChatToFolder h2 now2 folderId chatId chatTitle tgs note
                (snd (saveChatToFolder h1 now1 folderId chatId chatTitle tgs note w))))))
             = Some ctx2
         \<and> count_list (chatIds (folder ctx2)) chatId = 1
         \<and> (\<forall>f \<in> set (folderList (snd (saveChatToFolder h2 now2 folderId chatId chatTitle tgs note
                (snd (saveChatToFolder h1 now1 folderId chatId chatTitle tgs note w))))).
               distinct (chatIds f))"
proof -
  let ?g = "\<lambda>f. setChatIds (chatIds f @ [chatId]) f"
  let ?fs = "folders (folderData w)"
  let ?w1 = "snd (saveChatToFolder h1 now1 folderId chatId chatTitle tgs note w)"
  let ?w2 = "snd (saveChatToFolder h2 now2 folderId chatId chatTitle tgs note ?w1)"
  from folder_in_allFolders [OF found] inv have d: "distinct (chatIds (folder ctx))" by simp
  show ?thesis
  proof (cases "chatId \<in> set (chatIds (folder ctx))")
    case True
    from saveChatToFolder_present(2) [OF found True]
    have f1: "folders (folderData ?w1) = ?fs" .
    with found have found1: "getFolderContext folderId (folders (folderData ?w1)) = Some ctx"
      by simp
    from saveChatToFolder_present(2) [OF found1 True] f1
    have f2: "folders (folderData ?w2) = ?fs" by simp
    from d True have "count_list (chatIds (folder ctx)) chatId = 1"
      by (rule count_list_distinct)
    with found inv f2 show ?thesis by simp
  next
    case False
    have g: "subfolders (?g (folder ctx)) = subfolders (folder ctx)"
      "chatIds (?g (folder ctx)) = chatIds (folder ctx) @ [chatId]"
      "skeletonOf (?g (folder ctx)) = skeletonOf (folder ctx)"
      by (cases "folder ctx"; simp)+
    from saveChatToFolder_absent(2) [OF found False]
    have f1: "folders (folderData ?w1) = modifyFolder ctx ?g ?fs" .
    from getFolderContext_modifyFolder [where g = ?g, OF found g(3)] f1
    have found1: "getFolderContext folderId (folders (folderData ?w1))
        = Some (ctx\<lparr>folder := ?g (folder ctx)\<rparr>)" by simp
    have mem: "chatId \<in> set (chatIds (folder (ctx\<lparr>folder := ?g (folder ctx)\<rparr>)))"
      using g(2) by simp
    from saveChatToFolder_present(2) [OF found1 mem]
    have f2: "folders (folderData ?w2) = folders (folderData ?w1)" .
    from False have cnt: "count_list (chatIds (folder (ctx\<lparr>folder := ?g (folder ctx)\<rparr>))) chatId = 1"
      using g(2) by (simp add: count_list_0_iff)
    from shallow_modifyFolder [where g = ?g, OF found g(1)] obtain k where
      k: "map shallow (allFolders (modifyFolder ctx ?g ?fs))
            = (map shallow (allFolders ?fs))[k := shallow (?g (folder ctx))]" by blast
    have dist: "distinct (chatIds f)" if "f \<in> set (allFolders (modifyFolder ctx ?g ?fs))" for f
    proof -
      from that have "shallow f \<in> set (map shallow (allFolders (modifyFolder ctx ?g ?fs)))"
        by simp
      with k have "shallow f \<in> insert (shallow (?g (folder ctx))) (set (map shallow (allFolders ?fs)))"
        using set_update_subset_insert by fastforce
      then consider "shallow f = shallow (?g (folder ctx))"
        | f' where "f' \<in> set (allFolders ?fs)" "shallow f = shallow f'" by auto
      then show ?thesis
      proof cases
        case 1
        then have "chatIds f = chatIds (folder ctx) @ [chatId]" using g(2) by (simp add: shallow_def)
        with d False show ?thesis by simp
      next
        case 2
        then have "chatIds f = chatIds f'" by (simp add: shallow_def)
        with 2 inv show ?thesis by simp
      qed
    qed
    from found1 cnt dist f1 f2 show ?thesis by simp
  qed
qed

theorem link_idempotent_witness:
  "getFolderContext (Num 1) (folders (folderData world1))
     = Some \<lparr>folder = research, siblings = [], index = 0\<rparr>
   \<and> list_all (\<lambda>f. distinct (chatIds f)) (folderList world1)
   \<and> (\<exists>ctx2.
         getFolderContext (Num 1)
           (folders (folderData (snd (saveChatToFolder (hostOfSize 1) 3000 (Num 1) ''c2'' ''Second'' [] []
              (snd (saveChatToFolder (hostOfSize 1) 2000 (Num 1) ''c2'' ''Second'' [] [] world1))))))
           = Some ctx2
       \<and> count_list (chatIds (folder ctx2)) ''c2'' = 1)"
proof -
  have f1: "getFolderContext (Num 1) (folders (folderData world1))
      = Some \<lparr>folder = research, siblings = [], index = 0\<rparr>"
    by (simp add: getFolderContext_def world1_def research_def)
  have d1: "\<forall>f \<in> set (folderList world1). distinct (chatIds f)"
    by (simp add: world1_def research_def)
  from link_idempotent [OF f1 d1, of "hostOfSize 1" 3000 "''c2''" "''Second''" "[]" "[]"
      "hostOfSize 1" 2000]
  have "\<exists>ctx2.
         getFolderContext (Num 1)
           (folders (folderData (snd (saveChatToFolder (hostOfSize 1) 3000 (Num 1) ''c2'' ''Second'' [] []
              (snd (saveChatToFolder (hostOfSize 1) 2000 (Num 1) ''c2'' ''Second'' [] [] world1))))))
           = Some ctx2
       \<and> count_list (chatIds (folder ctx2)) ''c2'' = 1"
    by blast
  with f1 d1 show ?thesis by (simp add: list_all_iff)
qed

section \<open>Folder ids as numbers and as strings\<close>

lemma digitChar_props:
  "d < 10 \<Longrightarrow> isDigit (digitChar d) \<and> digitVal (digitChar d) = d"
  by (simp add: isDigit_def digitVal_def digitChar_def)

lemma decimalValue_snoc: "decimalValue (ds @ [c]) = 10 * decimalValue ds + digitVal c"
  by (simp add: decimalValue_def)

lemma digitsOf_props:
  "digitsOf n \<noteq> [] \<and> list_all isDigit (digitsOf n) \<and> decimalValue (digitsOf n) = n"
proof (induction n rule: digitsOf.induct)
  case (1 n)
  show ?case
  proof (cases "n < 10")
    case True
    then show ?thesis
      using digitChar_props [of n] by (subst (1 2 3) digitsOf.simps) (simp add: decimalValue_def)
  next
    case False
    with 1 digitChar_props [of "n mod 10"] show ?thesis
      by (subst (1 2 3) digitsOf.simps) (simp add: decimalValue_snoc)
  qed
qed

lemma isDigit_not_special:
  "isDigit c \<Longrightarrow> \<not> isSpace c \<and> c \<noteq> CHR ''-'' \<and> c \<noteq> CHR ''+'' \<and> c \<noteq> CHR ''I''"
  by (auto simp: isDigit_def isSpace_def)

lemma dropWhile_none: "\<forall>c \<in> set s. \<not> P c \<Longrightarrow> dropWhile P s = s"
  by (cases s) auto

lemma trim_no_space: "\<forall>c \<in> set s. \<not> isSpace c \<Longrightarrow> trim s = s"
  by (simp add: trim_def dropWhile_none)

lemma StrUnsignedDecimalLiteral_digits:
  assumes "ds \<noteq> []" "list_all isDigit ds"
  shows "StrUnsignedDecimalLiteral ds = Some (Finite (of_nat (decimalValue ds)))"
proof -
  from assms have "hd ds \<noteq> CHR ''I''"
    using isDigit_not_special [of "hd ds"] by (cases ds) auto
  then have ninf: "ds \<noteq> ''Infinity''" by auto
  from assms(2) have tw: "takeWhile isDigit ds = ds" "dropWhile isDigit ds = []"
    by (simp_all add: list_all_iff)
  from assms(1) ninf show ?thesis
    by (simp add: StrUnsignedDecimalLiteral_def tw scale10_def)
qed

lemma StringToNumber_digits:
  assumes "ds \<noteq> []" "list_all isDigit ds"
  shows "StringToNumber ds = Finite (of_nat (decimalValue ds))"
    and "StringToNumber (CHR ''-'' # ds) = Finite (- of_nat (decimalValue ds))"
proof -
  from assms(2) have ns: "\<forall>c \<in> set ds. \<not> isSpace c"
    using isDigit_not_special by (auto simp: list_all_iff)
  have m: "\<not> isSpace CHR ''-''" by (simp add: isSpace_def)
  from assms have h: "hd ds \<noteq> CHR ''-''" "hd ds \<noteq> CHR ''+''"
    using isDigit_not_special [of "hd ds"] by (cases ds; auto)+
  from assms(1) h have "StrDecimalLiteral ds = StrUnsignedDecimalLiteral ds"
    by (cases ds) (auto simp: StrDecimalLiteral_def)
  with assms ns show "StringToNumber ds = Finite (of_nat (decimalValue ds))"
    by (simp add: StringToNumber_def trim_no_space StrUnsignedDecimalLiteral_digits)
  from ns m have "trim (CHR ''-'' # ds) = CHR ''-'' # ds" by (intro trim_no_space) simp
  with assms show "StringToNumber (CHR ''-'' # ds) = Finite (- of_nat (decimalValue ds))"
    by (simp add: StringToNumber_def StrDecimalLiteral_def StrUnsignedDecimalLiteral_digits
          negateNumber_def)
qed

lemma StringToNumber_NumberToString: "StringToNumber (NumberToString n) = Finite (of_int n)"
proof (cases "n < 0")
  case True
  from digitsOf_props [of "nat (- n)"] StringToNumber_digits(2) [of "digitsOf (nat (- n))"] True
  show ?thesis by (simp add: NumberToString_def)
next
  case False
  from digitsOf_props [of "nat n"] StringToNumber_digits(1) [of "digitsOf (nat n)"] False
  show ?thesis by (simp add: NumberToString_def)
qed

lemma looseEq_NumberToString: "looseEq (Num fi) (Str (NumberToString n)) = looseEq (Num fi) (Num n)"
  by (auto simp: StringToNumber_NumberToString)

lemma getFolderContextFrom_cong:
  "(\<And>fi. looseEq (Num fi) x = looseEq (Num fi) y) \<Longrightarrow>
     getFolderContextFrom x addr i fs = getFolderContextFrom y addr i fs"
  by (induction y addr i fs rule: getFolderContextFrom.induct) (auto split: option.splits)

lemma getFolderContextFrom_None:
  "getFolderContextFrom x addr i fs = None
     \<longleftrightarrow> (\<forall>f \<in> set (allFolders fs). \<not> looseEq (Num (folder_id f)) x)"
  by (induction x addr i fs rule: getFolderContextFrom.induct) (auto split: option.splits)

text \<open>Loose equality also accepts other spellings of the number.\<close>

lemma looseEq_other_spellings:
  "looseEq (Num 1000) (Str ''1e3'') \<and> looseEq (Num 1000) (Str '' 01000 '')
   \<and> \<not> looseEq (Num 1000) (Str ''1000a'')"
  by (simp add: StringToNumber_def trim_def isSpace_def StrDecimalLiteral_def
        StrUnsignedDecimalLiteral_def SignedInteger_def isDigit_def decimalValue_def digitVal_def
        scale10_def NonDecimalIntegerLiteral_def)

text \<open>
  C10: a lookup by the decimal string of a number gives what the lookup by the number
  gives: the first folder with that id when the tree has one, not-found when it has none.
  So the operations that start from the lookup (linking, unlinking, moving, as folder to
  move and as target) do the same with either form.
\<close>

theorem folder_id_form_insensitive:
  "getFolderContext (Str (NumberToString n)) fs = getFolderContext (Num n) fs
   \<and> (n \<in> folder_id ` set (allFolders fs) \<longrightarrow>
        (\<exists>c. getFolderContext (Num n) fs = Some c \<and> folder_id (folder c) = n))
   \<and> (n \<notin> folder_id ` set (allFolders fs) \<longrightarrow>
        getFolderContext (Num n) fs = None \<and> getFolderContext (Str (NumberToString n)) fs = None)
   \<and> saveChatToFolder h now (Str (NumberToString n)) chatId chatTitle tgs note w
        = saveChatToFolder h now (Num n) chatId chatTitle tgs note w
   \<and> removeChatFromFolder h confirmed chatId (Str (NumberToString n)) w
        = removeChatFromFolder h confirmed chatId (Num n) w
   \<and> handleMoveFolder h (Str (NumberToString n)) target w = handleMoveFolder h (Num n) target w
   \<and> handleMoveFolder h moving (Str (NumberToString n)) w = handleMoveFolder h moving (Num n) w"
proof -
  have eq: "getFolderContext (Str (NumberToString n)) fs' = getFolderContext (Num n) fs'" for fs'
    unfolding getFolderContext_def
    by (rule getFolderContextFrom_cong) (rule looseEq_NumberToString)
  have none: "getFolderContext (Num n) fs = None \<longleftrightarrow> n \<notin> folder_id ` set (allFolders fs)"
    by (auto simp: getFolderContext_def getFolderContextFrom_None)
  have some: "\<exists>c. getFolderContext (Num n) fs = Some c \<and> folder_id (folder c) = n"
    if "n \<in> folder_id ` set (allFolders fs)"
  proof -
    from that none obtain c where c: "getFolderContext (Num n) fs = Some c" by auto
    from getFolderContext_sound [OF c] have "folder_id (folder c) = n" by auto
    with c show ?thesis by simp
  qed
  have nr: "Str (NumberToString n) \<noteq> Str ''root''"
  proof
    assume "Str (NumberToString n) = Str ''root''"
    then have "StringToNumber ''root'' = Finite (of_int n)"
      using StringToNumber_NumberToString [of n] by simp
    then show False
      by (simp add: StringToNumber_def trim_def isSpace_def StrDecimalLiteral_def
            StrUnsignedDecimalLiteral_def isDigit_def NonDecimalIntegerLiteral_def)
  qed
  have mv: "handleMoveFolder h moving (Str (NumberToString n)) w = handleMoveFolder h moving (Num n) w"
    using nr by (simp add: handleMoveFolder_def eq Let_def cong: option.case_cong)
  show ?thesis
    using none some mv
    by (simp add: eq saveChatToFolder_def removeChatFromFolder_def handleMoveFolder_def)
qed

theorem folder_id_form_insensitive_witness:
  "3 \<in> folder_id ` set (allFolders tree2) \<and> 9 \<notin> folder_id ` set (allFolders tree2)
   \<and> getFolderContext (Str (NumberToString 3)) tree2 = getFolderContext (Num 3) tree2
   \<and> (\<exists>c. getFolderContext (Num 3) tree2 = Some c \<and> folder_id (folder c) = 3)
   \<and> getFolderContext (Num 9) tree2 = None
   \<and> getFolderContext (Str (NumberToString 9)) tree2 = None"
proof -
  have a: "3 \<in> folder_id ` set (allFolders tree2)" "9 \<notin> folder_id ` set (allFolders tree2)"
    by (simp_all add: tree2_def drafts_def)
  from folder_id_form_insensitive
         [of 3 tree2 "hostOfSize 1" 0 "[]" "[]" "[]" "[]" world2 True Null Null]
       folder_id_form_insensitive
         [of 9 tree2 "hostOfSize 1" 0 "[]" "[]" "[]" "[]" world2 True Null Null]
       a
  show ?thesis by blast
qed

end
